theory Spec2Isabelle
  imports Complex_Main
begin

section \<open>Util.py: selecting an arbitrary item\<close>

text \<open>
  The exceptions of Python that the modelled code raises. \<open>StopIteration\<close> is the signal of
  an exhausted iterator, \<open>IndexError\<close> carries its message, \<open>ZeroDivisionError\<close> and
  \<open>OverflowError\<close> come from the division and the square in \<open>straincontrol\<close>, and
  \<open>Exception\<close> is the plain exception of \<open>SVG.close\<close>.
\<close>

datatype pyexc =
    StopIteration
  | IndexError string
  | ZeroDivisionError
  | OverflowError
  | Exception string

text \<open>
  A set or sequence \<open>S\<close> is modelled by the list of its items in iteration order.
  \<open>next_iter S\<close> is \<open>next(iter(S))\<close>: the first item, or \<open>StopIteration\<close>.
\<close>

fun next_iter :: "'a list \<Rightarrow> pyexc + 'a" where
  "next_iter [] = Inl StopIteration"
| "next_iter (x # _) = Inr x"

text \<open>
  \<^verbatim>\<open>
  def arbitrary_item(S):
      try:
          return next(iter(S))
      except StopIteration:
          raise IndexError("No items to select.")
  \<close>
\<close>

definition arbitrary_item :: "'a list \<Rightarrow> pyexc + 'a" where
  "arbitrary_item S =
     (case next_iter S of
        Inr x \<Rightarrow> Inr x
      | Inl StopIteration \<Rightarrow> Inl (IndexError ''No items to select.'')
      | Inl e \<Rightarrow> Inl e)"

section \<open>Floats\<close>

text \<open>
  A Python float is an IEEE 754 binary64 number: a finite number, one of the two zeros,
  one of the two infinities, or nan. \<open>Num x\<close> is the float of value \<open>x\<close>, and \<open>Num 0\<close>
  the zero with the plus sign; \<open>NegZero\<close> is \<open>-0.0\<close>.
\<close>

datatype pyfloat = Num rat | NegZero | PosInf | NegInf | NaN

fun signbit :: "pyfloat \<Rightarrow> bool" where
  "signbit (Num x) = (x < 0)"
| "signbit NegZero = True"
| "signbit PosInf = False"
| "signbit NegInf = True"
| "signbit NaN = False"

fun is_finite :: "pyfloat \<Rightarrow> bool" where
  "is_finite (Num x) = True"
| "is_finite NegZero = True"
| "is_finite PosInf = False"
| "is_finite NegInf = False"
| "is_finite NaN = False"

text \<open>The value of a finite float (both zeros have the value 0).\<close>

fun fval :: "pyfloat \<Rightarrow> rat" where
  "fval (Num x) = x"
| "fval NegZero = 0"
| "fval PosInf = 0"
| "fval NegInf = 0"
| "fval NaN = 0"

definition is_zero :: "pyfloat \<Rightarrow> bool" where
  "is_zero a = (a = Num 0 \<or> a = NegZero)"

definition fzero :: "bool \<Rightarrow> pyfloat" where
  "fzero negative = (if negative then NegZero else Num 0)"

definition finf :: "bool \<Rightarrow> pyfloat" where
  "finf negative = (if negative then NegInf else PosInf)"

text \<open>
  Rounding to the nearest integer, a tie going to the even one; it is the rounding of
  the float arithmetic and of \<open>"%.4f"\<close>.
\<close>

definition round_half_even :: "rat \<Rightarrow> int" where
  "round_half_even x =
     (let f = \<lfloor>x\<rfloor>; d = x - of_int f
      in if d < 1 / 2 then f
         else if 1 / 2 < d then f + 1
         else if even f then f else f + 1)"

text \<open>
  The result of an arithmetic operation is its exact value rounded to binary64.
  \<open>ilog2 a\<close> is the binary exponent of a positive \<open>a\<close> (\<open>2 ^ e \<le> a < 2 ^ (e + 1)\<close>);
  the floats of that exponent are the multiples of \<open>quantum a\<close> with 53 bits, and below
  the smallest normal exponent -1022 the subnormal floats are the multiples of
  \<open>2 ^ -1074\<close>. A rounded magnitude of \<open>2 ^ 1024\<close> or more overflows to an infinity,
  and a rounded magnitude of zero keeps the sign.
\<close>

function ilog2 :: "rat \<Rightarrow> int" where
  "ilog2 a = (if 2 \<le> a then ilog2 (a / 2) + 1
              else if 0 < a \<and> a < 1 then ilog2 (a * 2) - 1
              else 0)"
  by pat_completeness auto
termination
proof (relation "measure (\<lambda>a. if 1 \<le> a then nat \<lfloor>a\<rfloor> else nat \<lfloor>1 / a\<rfloor> + 1)")
  show "wf (measure (\<lambda>a::rat. if 1 \<le> a then nat \<lfloor>a\<rfloor> else nat \<lfloor>1 / a\<rfloor> + 1))" by simp
next
  fix a :: rat
  assume a: "2 \<le> a"
  have "\<lfloor>a / 2\<rfloor> \<le> \<lfloor>a - 1\<rfloor>" using a by (intro floor_mono) simp
  then have "\<lfloor>a / 2\<rfloor> < \<lfloor>a\<rfloor>" by simp
  moreover have "0 \<le> \<lfloor>a / 2\<rfloor>" using a by simp
  ultimately show "(a / 2, a) \<in> measure (\<lambda>a. if 1 \<le> a then nat \<lfloor>a\<rfloor> else nat \<lfloor>1 / a\<rfloor> + 1)"
    using a by simp
next
  fix a :: rat
  assume "\<not> 2 \<le> a" and a: "0 < a \<and> a < 1"
  have one: "1 \<le> \<lfloor>1 / a\<rfloor>" using a by (simp add: le_floor_iff)
  show "(a * 2, a) \<in> measure (\<lambda>a. if 1 \<le> a then nat \<lfloor>a\<rfloor> else nat \<lfloor>1 / a\<rfloor> + 1)"
  proof (cases "1 \<le> a * 2")
    case True
    have "a * 2 < 2" using a by simp
    then have "\<lfloor>a * 2\<rfloor> < 2" by (simp add: floor_less_iff)
    then have "nat \<lfloor>a * 2\<rfloor> \<le> 1" by arith
    moreover have "1 \<le> nat \<lfloor>1 / a\<rfloor>" using one by arith
    ultimately have "nat \<lfloor>a * 2\<rfloor> < nat \<lfloor>1 / a\<rfloor> + 1" by linarith
    with True a show ?thesis by simp
  next
    case False
    then have y: "2 < 1 / a" using a by (simp add: field_simps)
    have "\<lfloor>1 / (a * 2)\<rfloor> \<le> \<lfloor>1 / a - 1\<rfloor>"
      using y a by (intro floor_mono) (simp add: field_simps)
    then have "\<lfloor>1 / (a * 2)\<rfloor> < \<lfloor>1 / a\<rfloor>" by simp
    moreover have "0 \<le> \<lfloor>1 / (a * 2)\<rfloor>" using a by simp
    ultimately show ?thesis using False a by simp
  qed
qed

declare ilog2.simps [simp del]

definition pow2 :: "int \<Rightarrow> rat" where
  "pow2 k = (if 0 \<le> k then 2 ^ nat k else 1 / 2 ^ nat (- k))"

definition quantum :: "rat \<Rightarrow> rat" where
  "quantum a = pow2 (max (ilog2 a) (- 1022) - 52)"

definition round_pos :: "rat \<Rightarrow> rat" where
  "round_pos a = of_int (round_half_even (a / quantum a)) * quantum a"

definition fround :: "rat \<Rightarrow> pyfloat" where
  "fround x =
     (let r = round_pos \<bar>x\<bar>
      in if 2 ^ 1024 \<le> r then finf (x < 0)
         else if r = 0 then fzero (x < 0)
         else Num (if x < 0 then - r else r))"

text \<open>\<open>-a\<close> and \<open>abs(a)\<close>.\<close>

fun fneg :: "pyfloat \<Rightarrow> pyfloat" where
  "fneg (Num x) = (if x = 0 then NegZero else Num (- x))"
| "fneg NegZero = Num 0"
| "fneg PosInf = NegInf"
| "fneg NegInf = PosInf"
| "fneg NaN = NaN"

fun fabs :: "pyfloat \<Rightarrow> pyfloat" where
  "fabs (Num x) = Num \<bar>x\<bar>"
| "fabs NegZero = Num 0"
| "fabs PosInf = PosInf"
| "fabs NegInf = PosInf"
| "fabs NaN = NaN"

text \<open>
  \<open>a < b\<close>: false when one of the two is nan, and false between the two zeros.
  \<open>min(a, b)\<close> of two arguments takes the second when it is less than the first and the
  first otherwise.
\<close>

definition flt :: "pyfloat \<Rightarrow> pyfloat \<Rightarrow> bool" where
  "flt a b =
     (if a = NaN \<or> b = NaN then False
      else if a = NegInf then b \<noteq> NegInf
      else if b = PosInf then a \<noteq> PosInf
      else if a = PosInf \<or> b = NegInf then False
      else fval a < fval b)"

definition fmin :: "pyfloat \<Rightarrow> pyfloat \<Rightarrow> pyfloat" where
  "fmin a b = (if flt b a then b else a)"

text \<open>
  \<open>a + b\<close>, \<open>a - b\<close> and \<open>a * b\<close> never raise. A sum that is exactly zero is \<open>-0.0\<close> only
  when both terms have the minus sign; a product has the sign of its factors also when
  it is zero.
\<close>

definition fadd :: "pyfloat \<Rightarrow> pyfloat \<Rightarrow> pyfloat" where
  "fadd a b =
     (if a = NaN \<or> b = NaN then NaN
      else if is_finite a \<and> is_finite b then
        (if fval a + fval b = 0 then fzero (signbit a \<and> signbit b)
         else fround (fval a + fval b))
      else if is_finite b then a
      else if is_finite a then b
      else if a = b then a
      else NaN)"

definition fsub :: "pyfloat \<Rightarrow> pyfloat \<Rightarrow> pyfloat" where
  "fsub a b = fadd a (fneg b)"

definition fmul :: "pyfloat \<Rightarrow> pyfloat \<Rightarrow> pyfloat" where
  "fmul a b =
     (if a = NaN \<or> b = NaN then NaN
      else if is_finite a \<and> is_finite b then
        (if fval a * fval b = 0 then fzero (signbit a \<noteq> signbit b)
         else fround (fval a * fval b))
      else if is_zero a \<or> is_zero b then NaN
      else finf (signbit a \<noteq> signbit b))"

text \<open>
  The division of the hardware, which the complex quotient uses, and \<open>a / b\<close> of Python,
  which raises ZeroDivisionError when \<open>b\<close> is a zero.
\<close>

definition ieee_div :: "pyfloat \<Rightarrow> pyfloat \<Rightarrow> pyfloat" where
  "ieee_div a b =
     (if a = NaN \<or> b = NaN then NaN
      else if is_finite a \<and> is_finite b then
        (if is_zero b then (if is_zero a then NaN else finf (signbit a \<noteq> signbit b))
         else if fval a = 0 then fzero (signbit a \<noteq> signbit b)
         else fround (fval a / fval b))
      else if is_finite b then finf (signbit a \<noteq> signbit b)
      else if is_finite a then fzero (signbit a \<noteq> signbit b)
      else NaN)"

definition fdiv :: "pyfloat \<Rightarrow> pyfloat \<Rightarrow> pyexc + pyfloat" where
  "fdiv a b = (if is_zero b then Inl ZeroDivisionError else Inr (ieee_div a b))"

text \<open>
  \<open>a ** 2\<close>: the rounded square, and OverflowError when the square of a finite float
  overflows. (The square of the C library is taken to be the correctly rounded one.)
\<close>

definition fpow2 :: "pyfloat \<Rightarrow> pyexc + pyfloat" where
  "fpow2 a =
     (if a = NaN then Inr NaN
      else if is_finite a then
        (if fround (fval a * fval a) = PosInf then Inl OverflowError
         else Inr (fround (fval a * fval a)))
      else Inr PosInf)"

section \<open>SVG.py: coordinates as strings\<close>

text \<open>
  \<open>"%.4f" % x\<close> writes a finite float as the decimal numeral with four digits after the
  point that is nearest to its exact value, a tie going to the even last digit, with a
  minus sign when the float has one (also when the digits are all zero); it writes the
  infinities as \<open>inf\<close> and \<open>-inf\<close> and nan as \<open>nan\<close>. \<open>fixed4 negative a\<close> is the
  numeral of the magnitude \<open>a\<close> with that sign.
\<close>

definition digit_char :: "nat \<Rightarrow> char" where
  "digit_char d = ''0123456789'' ! d"

fun digits :: "nat \<Rightarrow> string" where
  "digits n = (if n < 10 then [digit_char n] else digits (n div 10) @ [digit_char (n mod 10)])"

declare digits.simps [simp del]

definition frac4 :: "nat \<Rightarrow> string" where
  "frac4 m = [digit_char (m div 1000 mod 10), digit_char (m div 100 mod 10),
              digit_char (m div 10 mod 10), digit_char (m mod 10)]"

definition fixed4 :: "bool \<Rightarrow> rat \<Rightarrow> string" where
  "fixed4 negative a =
     (let n = nat (round_half_even (a * 10000))
      in (if negative then ''-'' else []) @ digits (n div 10000) @ ''.'' @ frac4 (n mod 10000))"

fun format_4f :: "pyfloat \<Rightarrow> string" where
  "format_4f (Num x) = fixed4 (x < 0) \<bar>x\<bar>"
| "format_4f NegZero = fixed4 True 0"
| "format_4f PosInf = ''inf''"
| "format_4f NegInf = ''-inf''"
| "format_4f NaN = ''nan''"

text \<open>\<open>s.rstrip(chars)\<close>: \<open>s\<close> without its longest suffix of characters of \<open>chars\<close>.\<close>

definition rstrip :: "string \<Rightarrow> string \<Rightarrow> string" where
  "rstrip chars s = rev (dropWhile (\<lambda>c. c \<in> set chars) (rev s))"

text \<open>
  \<^verbatim>\<open>
  def _coord(x):
      return ("%.4f" % x).rstrip("0").rstrip(".")
  \<close>
\<close>

definition coord :: "pyfloat \<Rightarrow> string" where
  "coord x = rstrip ''.'' (rstrip ''0'' (format_4f x))"

text \<open>
  What is left of the numeral of the natural number \<open>n\<close> of ten-thousandths after the
  two strips: the digits before the point, and the point with the digits after it when one
  of them is not zero. (A notion of the proofs, not of the source.)
\<close>

definition coord_body :: "nat \<Rightarrow> string" where
  "coord_body n =
     digits (n div 10000) @
     (if rstrip ''0'' (frac4 (n mod 10000)) = [] then []
      else CHR ''.'' # rstrip ''0'' (frac4 (n mod 10000)))"

text \<open>
  Reading a decimal numeral back, as \<open>float(s)\<close> does for a string of an optional minus
  sign, digits and at most one point, with a digit somewhere: \<open>"5."\<close> and \<open>".5"\<close> are
  numerals, \<open>"."\<close> and the empty string are not. The value is the exact one of the
  numeral.
\<close>

definition is_digit :: "char \<Rightarrow> bool" where
  "is_digit c = (48 \<le> (of_char c :: nat) \<and> (of_char c :: nat) \<le> 57)"

definition digit_val :: "char \<Rightarrow> nat" where
  "digit_val c = of_char c - 48"

definition nat_of_digits :: "string \<Rightarrow> nat" where
  "nat_of_digits ds = foldl (\<lambda>a c. 10 * a + digit_val c) 0 ds"

definition parse_unsigned :: "string \<Rightarrow> rat option" where
  "parse_unsigned s =
     (let ip = takeWhile (\<lambda>c. c \<noteq> CHR ''.'') s;
          rest = dropWhile (\<lambda>c. c \<noteq> CHR ''.'') s;
          fp = (if rest = [] then [] else tl rest)
      in if list_all is_digit (ip @ fp) \<and> ip @ fp \<noteq> []
         then Some (of_nat (nat_of_digits (ip @ fp)) / 10 ^ length fp)
         else None)"

definition parse_decimal :: "string \<Rightarrow> rat option" where
  "parse_decimal s =
     (case s of
        [] \<Rightarrow> None
      | c # r \<Rightarrow> if c = CHR ''-'' then map_option uminus (parse_unsigned r)
                 else parse_unsigned s)"

section \<open>SVG.py: points\<close>

text \<open>
  A point is a Python complex number, a pair of floats: \<open>re p\<close> is \<open>p.real\<close> and \<open>im p\<close>
  is \<open>p.imag\<close>. The sum and the difference go by components. A product with a number
  converts the number to a complex one with the imaginary part \<open>0.0\<close> (\<open>creal\<close>) and
  takes the complex product; the quotient by a number does the same and takes the complex
  quotient, which for a divisor \<open>c + 0.0j\<close> with a nonzero number \<open>c\<close> computes
  \<open>ratio = 0.0 / c\<close> and \<open>denom = c + 0.0 * ratio\<close> first.
\<close>

datatype point = Point (re: pyfloat) (im: pyfloat)

definition csub :: "point \<Rightarrow> point \<Rightarrow> point" where
  "csub p q = Point (fsub (re p) (re q)) (fsub (im p) (im q))"

definition cadd :: "point \<Rightarrow> point \<Rightarrow> point" where
  "cadd p q = Point (fadd (re p) (re q)) (fadd (im p) (im q))"

definition creal :: "pyfloat \<Rightarrow> point" where
  "creal a = Point a (Num 0)"

definition cprod :: "point \<Rightarrow> point \<Rightarrow> point" where
  "cprod a b =
     Point (fsub (fmul (re a) (re b)) (fmul (im a) (im b)))
           (fadd (fmul (re a) (im b)) (fmul (im a) (re b)))"

definition cquot_real :: "point \<Rightarrow> pyfloat \<Rightarrow> point" where
  "cquot_real a c =
     (let ratio = ieee_div (Num 0) c;
          denom = fadd c (fmul (Num 0) ratio)
      in Point (ieee_div (fadd (re a) (fmul (im a) ratio)) denom)
               (ieee_div (fsub (im a) (fmul (re a) ratio)) denom))"

section \<open>SVG.py: the document\<close>

text \<open>
  A style is a Python dict from strings to strings: an association list in insertion
  order. \<open>dict_setitem d k v\<close> is \<open>d[k] = v\<close>: a key that is present keeps its place
  and gets the new value, a new key goes to the end. \<open>dict_update d m\<close> is
  \<open>d.update(m)\<close>, and \<open>dict_copy m\<close> is \<open>dict(m)\<close>, a new dict filled from \<open>m\<close>.
\<close>

type_synonym dict = "(string \<times> string) list"

fun dict_setitem :: "dict \<Rightarrow> string \<Rightarrow> string \<Rightarrow> dict" where
  "dict_setitem [] k v = [(k, v)]"
| "dict_setitem ((k', v') # d) k v =
     (if k' = k then (k', v) # d else (k', v') # dict_setitem d k v)"

definition dict_update :: "dict \<Rightarrow> dict \<Rightarrow> dict" where
  "dict_update d m = foldl (\<lambda>d' (k, v). dict_setitem d' k v) d m"

definition dict_copy :: "dict \<Rightarrow> dict" where
  "dict_copy m = dict_update [] m"

text \<open>
  The state: the fields of the SVG object (the text written to its stream so far, the tag
  prefix, the indentation and the nesting counter) and the store of the dict objects that
  style arguments refer to. A style argument is a reference: the index of a dict in
  \<open>heap\<close>. \<open>dict(style)\<close> allocates a new object at the end of the store.
\<close>

type_synonym addr = nat

record SVG =
  stream :: string
  prefix :: string
  indentation :: int
  nesting :: int
  heap :: "dict list"

text \<open>
  The default \<open>style={}\<close> of a method is one dict object, made when the method is
  defined and shared by all its calls. The ten methods with such a default own the
  first ten objects of the store.
\<close>

definition element_style :: addr where "element_style = 0"
definition group_style :: addr where "group_style = 1"
definition circle_style :: addr where "circle_style = 2"
definition rectangle_style :: addr where "rectangle_style = 3"
definition polygon_style :: addr where "polygon_style = 4"
definition polyline_style :: addr where "polyline_style = 5"
definition segment_style :: addr where "segment_style = 7"
definition arc_style :: addr where "arc_style = 8"
definition text_style :: addr where "text_style = 9"

definition module_heap :: "dict list" where
  "module_heap = [[], [], [], [], [], [], [], [], [], []]"

abbreviation dq :: string where "dq \<equiv> [CHR 0x22]"
abbreviation nl :: string where "nl \<equiv> [CHR 0x0A]"

text \<open>\<open>" " * n\<close>: no space at all when \<open>n\<close> is negative.\<close>

definition spaces :: "int \<Rightarrow> string" where
  "spaces n = replicate (nat n) CHR '' ''"

text \<open>
  The loop over the merged style,
  \<^verbatim>\<open>
  for keyword in style:
      if second: output.append("; ")
      second = True
      output += [keyword, ":", style[keyword]]
  \<close>
  run over the items of the dict (a key with the value \<open>style[keyword]\<close> stored under it).
\<close>

fun style_loop :: "dict \<Rightarrow> bool \<Rightarrow> string list \<Rightarrow> string list" where
  "style_loop [] second output = output"
| "style_loop ((keyword, v) # style) second output =
     style_loop style True
       ((if second then output @ [''; ''] else output) @ [keyword, '':'', v])"

text \<open>
  \<open>element e delta unspaced style morestyle s\<close> is
  \<open>self.element(e, delta, unspaced, style, **morestyle)\<close> in state \<open>s\<close>; \<open>style\<close> is the
  reference the caller passes and \<open>morestyle\<close> the keyword arguments, a dict of the call's
  own. The local name \<open>style\<close> is rebound to the copy (\<open>style'\<close>), which \<open>update\<close> then
  changes in place.
\<close>

definition element :: "string \<Rightarrow> int \<Rightarrow> bool \<Rightarrow> addr \<Rightarrow> dict \<Rightarrow> SVG \<Rightarrow> SVG" where
  "element e delta unspaced style morestyle s =
     (let s1 = (if delta < 0 then s\<lparr>nesting := nesting s + delta\<rparr> else s);
          output1 = (if delta \<ge> 0 \<or> \<not> unspaced
                     then [spaces (indentation s1 + 2 * nesting s1), ''<'']
                     else [''<'']);
          output2 = (if delta < 0 then output1 @ [''/''] else output1);
          output3 = output2 @ [prefix s1, e];
          style' = length (heap s1);
          s2 = s1\<lparr>heap := heap s1 @ [dict_copy (heap s1 ! style)]\<rparr>;
          s3 = s2\<lparr>heap := (heap s2)[style' := dict_update (heap s2 ! style') morestyle]\<rparr>;
          output4 = (if heap s3 ! style' \<noteq> []
                     then style_loop (heap s3 ! style') False (output3 @ ['' style='' @ dq]) @ [dq]
                     else output3);
          s4 = (if delta > 0 then s3\<lparr>nesting := nesting s3 + delta\<rparr> else s3);
          output5 = (if delta > 0 then output4
                     else if delta = 0 then output4 @ [''/'']
                     else output4);
          output6 = output5 @ [''>''];
          output7 = (if delta \<le> 0 \<or> \<not> unspaced then output6 @ [nl] else output6)
      in s4\<lparr>stream := stream s4 @ concat output7\<rparr>)"

text \<open>
  \<open>__init__(self, bbox, stream, standalone, prefix, indentation)\<close>; \<open>stream0\<close> is what
  the stream holds already and \<open>heap0\<close> the store at the time of the call. A prefix that
  is None or empty gives no prefix.
\<close>

definition xml_header :: string where
  "xml_header =
     ''<?xml version='' @ dq @ ''1.0'' @ dq @ ''?>'' @ nl @
     ''<!DOCTYPE svg PUBLIC '' @ dq @ ''-//W3C//DTD SVG 1.1//EN'' @ dq @ '' '' @ nl @
     ''  '' @ dq @ ''http://www.w3.org/Graphics/SVG/1.1/DTD/svg11.dtd'' @ dq @ ''>'' @ nl"

definition svg_init :: "point \<Rightarrow> string \<Rightarrow> bool \<Rightarrow> string option \<Rightarrow> int \<Rightarrow> dict list \<Rightarrow> SVG" where
  "svg_init bbox stream0 standalone prefix0 indentation0 heap0 =
     (let s0 = \<lparr>stream = (if standalone then stream0 @ xml_header else stream0),
                prefix = (case prefix0 of
                            None \<Rightarrow> []
                          | Some p \<Rightarrow> if p \<noteq> [] then p @ '':'' else []),
                indentation = indentation0,
                nesting = 0,
                heap = heap0\<rparr>;
          br = coord (re bbox);
          bi = coord (im bbox)
      in element
           (''svg width='' @ dq @ br @ dq @ '' height='' @ dq @ bi @ dq @
            '' viewBox='' @ dq @ ''0 0 '' @ br @ '' '' @ bi @ dq @ nl @
            ''     xmlns='' @ dq @ ''http://www.w3.org/2000/svg'' @ dq @
            '' version='' @ dq @ ''1.1'' @ dq)
           1 False element_style [] s0)"

text \<open>
  \<open>close\<close> writes the closing tag and then raises when the counter is not zero: the
  exception comes with the state the object is left in.
\<close>

definition close :: "SVG \<Rightarrow> (pyexc \<times> SVG) + SVG" where
  "close s =
     (let s' = element ''svg'' (- 1) False element_style [] s
      in if nesting s' \<noteq> 0 then Inl (Exception ''SVG: Unclosed tags'', s') else Inr s')"

definition group :: "addr \<Rightarrow> dict \<Rightarrow> SVG \<Rightarrow> SVG" where
  "group style morestyle s = element ''g'' 1 False style morestyle s"

definition ungroup :: "SVG \<Rightarrow> SVG" where
  "ungroup s = element ''g'' (- 1) False element_style [] s"

definition circle :: "point \<Rightarrow> pyfloat \<Rightarrow> addr \<Rightarrow> dict \<Rightarrow> SVG \<Rightarrow> SVG" where
  "circle center radius style morestyle s =
     element
       (''circle cx='' @ dq @ coord (re center) @ dq @ '' cy='' @ dq @ coord (im center) @ dq @
        '' r='' @ dq @ coord radius @ dq)
       0 False style morestyle s"

definition rectangle :: "point \<Rightarrow> point \<Rightarrow> addr \<Rightarrow> dict \<Rightarrow> SVG \<Rightarrow> SVG" where
  "rectangle p q style morestyle s =
     (let x = fmin (re p) (re q);
          y = fmin (im p) (im q);
          width = fabs (re (csub p q));
          height = fabs (im (csub p q))
      in element
           (''rect x='' @ dq @ coord x @ dq @ '' y='' @ dq @ coord x @ dq @
            '' width='' @ dq @ coord width @ dq @ '' height='' @ dq @ coord height @ dq)
           0 False style morestyle s)"

text \<open>\<open>sep.join(xs)\<close>.\<close>

fun join :: "string \<Rightarrow> string list \<Rightarrow> string" where
  "join sep [] = []"
| "join sep [x] = x"
| "join sep (x # y # ys) = x @ sep @ join sep (y # ys)"

definition pointlist :: "point list \<Rightarrow> string" where
  "pointlist points = join '' '' (map (\<lambda>p. coord (re p) @ '','' @ coord (im p)) points)"

definition polygon :: "point list \<Rightarrow> addr \<Rightarrow> dict \<Rightarrow> SVG \<Rightarrow> SVG" where
  "polygon points style morestyle s =
     element (''polygon points='' @ dq @ pointlist points @ dq) 0 False style morestyle s"

definition polyline :: "point list \<Rightarrow> addr \<Rightarrow> dict \<Rightarrow> SVG \<Rightarrow> SVG" where
  "polyline points style morestyle s =
     element (''polyline points='' @ dq @ pointlist points @ dq) 0 False style morestyle s"

text \<open>
  The smooth curve. \<open>dot\<close> and \<open>straincontrol\<close> are the local functions of \<open>polycurve\<close>.
  The square \<open>v01**2\<close> raises OverflowError when it overflows, and the division by \<open>e\<close>
  raises ZeroDivisionError when \<open>e\<close> is a zero; the other operations do not raise.
\<close>

definition dot :: "point \<Rightarrow> point \<Rightarrow> pyfloat" where
  "dot r s = fadd (fmul (re r) (re s)) (fmul (im r) (im s))"

definition straincontrol ::
    "point \<Rightarrow> point \<Rightarrow> point \<Rightarrow> point \<Rightarrow> pyexc + (point \<times> point \<times> point \<times> point)" where
  "straincontrol q0 p0 p1 q1 =
     (let v0 = csub p1 q0;
          v1 = csub q1 p0;
          d = cprod (creal (Num 3)) (csub p1 p0);
          dv0 = dot d v0;
          dv1 = dot d v1;
          v00 = dot v0 v0;
          v01 = dot v0 v1;
          v11 = dot v1 v1
      in case fpow2 v01 of
           Inl err \<Rightarrow> Inl err
         | Inr v01_squared \<Rightarrow>
             (let e = fsub (fmul (fmul (Num 4) v00) v11) v01_squared
              in case fdiv (fsub (fmul (fmul (Num 2) dv0) v11) (fmul dv1 v01)) e of
                   Inl err \<Rightarrow> Inl err
                 | Inr a0 \<Rightarrow>
                     (case fdiv (fsub (fmul (fmul (Num 2) dv1) v00) (fmul dv0 v01)) e of
                        Inl err \<Rightarrow> Inl err
                      | Inr a1 \<Rightarrow>
                          Inr (p0,
                               cadd p0 (cquot_real (cprod (creal a0) v0) (Num 3)),
                               csub p1 (cquot_real (cprod (creal a1) v1) (Num 3)),
                               p1))))"

text \<open>\<open>_point(q)\<close> appends the two coordinates of \<open>q\<close> to \<open>data\<close>.\<close>

definition point_data :: "point \<Rightarrow> string list \<Rightarrow> string list" where
  "point_data q data = data @ [coord (re q), coord (im q)]"

text \<open>
  The loop \<open>for i in range(1, len(points)-2)\<close>, over the list of the indices that are
  left; every index it reads lies inside \<open>points\<close>.
\<close>

fun polycurve_loop :: "point list \<Rightarrow> nat list \<Rightarrow> string list \<Rightarrow> pyexc + string list" where
  "polycurve_loop points [] data = Inr data"
| "polycurve_loop points (i # is) data =
     (case straincontrol (points ! (i - 1)) (points ! i) (points ! (i + 1)) (points ! (i + 2)) of
        Inl err \<Rightarrow> Inl err
      | Inr (a, b, c, d) \<Rightarrow>
          polycurve_loop points is (point_data d (point_data c (point_data b data))))"

definition polycurve_data :: "point list \<Rightarrow> pyexc + string list" where
  "polycurve_data points =
     (if length points < 2 then Inl (IndexError ''list index out of range'')
      else polycurve_loop points [1 ..< length points - 2]
             (point_data (points ! 1) [''M''] @ [''C'']))"

definition polycurve :: "point list \<Rightarrow> addr \<Rightarrow> dict \<Rightarrow> SVG \<Rightarrow> (pyexc \<times> SVG) + SVG" where
  "polycurve points style morestyle s =
     (case polycurve_data points of
        Inl err \<Rightarrow> Inl (err, s)
      | Inr data \<Rightarrow>
          Inr (element (''path d='' @ dq @ join '' '' data @ dq) 0 False style morestyle s))"

definition segment :: "point \<Rightarrow> point \<Rightarrow> addr \<Rightarrow> dict \<Rightarrow> SVG \<Rightarrow> SVG" where
  "segment p q style morestyle s =
     element
       (''line x1='' @ dq @ coord (re p) @ dq @ '' y1='' @ dq @ coord (im p) @ dq @
        '' x2='' @ dq @ coord (re q) @ dq @ '' y2='' @ dq @ coord (im q) @ dq)
       0 False style morestyle s"

definition arc :: "point \<Rightarrow> point \<Rightarrow> pyfloat \<Rightarrow> bool \<Rightarrow> addr \<Rightarrow> dict \<Rightarrow> SVG \<Rightarrow> SVG" where
  "arc p q r large style morestyle s =
     (let large' = (if large then ''1'' else ''0'');
          r' = coord (fabs r)
      in element
           (''path d='' @ dq @ ''M '' @ coord (re p) @ '','' @ coord (im p) @
            '' A '' @ r' @ '','' @ r' @ '' 0 '' @ large' @ '' 0 '' @
            coord (re q) @ '','' @ coord (im q) @ dq)
           0 False style morestyle s)"

definition svg_text :: "string \<Rightarrow> point \<Rightarrow> addr \<Rightarrow> dict \<Rightarrow> SVG \<Rightarrow> SVG" where
  "svg_text label location style morestyle s =
     (let s1 = element
                 (''text x='' @ dq @ coord (re location) @ dq @
                  '' y='' @ dq @ coord (im location) @ dq)
                 1 True style morestyle s;
          s2 = s1\<lparr>stream := stream s1 @ label\<rparr>
      in element ''text'' (- 1) True element_style [] s2)"

section \<open>Notions of the properties\<close>

text \<open>
  The style a call of \<open>element\<close> writes: the copy of the dict \<open>base\<close> the style
  argument refers to, updated with the keyword arguments.
\<close>

definition merged_style :: "dict \<Rightarrow> dict \<Rightarrow> dict" where
  "merged_style base morestyle = dict_update (dict_copy base) morestyle"

text \<open>
  The style attribute as the specification writes it: nothing for an empty style,
  otherwise \<open>style="key1:value1; key2:value2"\<close> with a space in front.
\<close>

definition style_item :: "string \<times> string \<Rightarrow> string" where
  "style_item kv = fst kv @ '':'' @ snd kv"

definition style_attr :: "dict \<Rightarrow> string" where
  "style_attr m = (if m = [] then [] else '' style='' @ dq @ join ''; '' (map style_item m) @ dq)"

text \<open>
  The state an operation that may raise leaves behind, whether it raised or not.
\<close>

definition final_state :: "(pyexc \<times> SVG) + SVG \<Rightarrow> SVG" where
  "final_state r = (case r of Inl (err, s) \<Rightarrow> s | Inr s \<Rightarrow> s)"

text \<open>
  A sequence of calls of \<open>element\<close>, each with its arguments, run one after the other,
  and the deltas of the calls.
\<close>

type_synonym element_call = "string \<times> int \<times> bool \<times> addr \<times> dict"

fun element_calls :: "element_call list \<Rightarrow> SVG \<Rightarrow> SVG" where
  "element_calls [] s = s"
| "element_calls ((e, delta, unspaced, style, morestyle) # cs) s =
     element_calls cs (element e delta unspaced style morestyle s)"

definition deltas :: "element_call list \<Rightarrow> int list" where
  "deltas cs = map (\<lambda>c. fst (snd c)) cs"

text \<open>
  Matching the opening calls (delta = +1) with the closing ones (delta = -1) as brackets
  are matched, with a stack: \<open>matching ds 0 0 = (opens, closes)\<close> gives the number of
  opening calls that no later closing call matches and the number of closing calls that
  no earlier opening call matches. The sequence is properly nested when both are zero.
\<close>

fun matching :: "int list \<Rightarrow> nat \<Rightarrow> nat \<Rightarrow> nat \<times> nat" where
  "matching [] opens closes = (opens, closes)"
| "matching (d # ds) opens closes =
     (if d = 1 then matching ds (Suc opens) closes
      else if d = - 1 then
        (case opens of
           0 \<Rightarrow> matching ds 0 (Suc closes)
         | Suc k \<Rightarrow> matching ds k closes)
      else matching ds opens closes)"











section \<open>Theorems\<close>

subsection \<open>Coordinates: digits, strips and rounding\<close>

lemma floor_rat_numeral: "\<lfloor>numeral a / numeral b :: rat\<rfloor> = numeral a div numeral b"
  by (metis floor_divide_of_int_eq of_int_numeral)

lemmas coord_eval =
  coord_def rstrip_def fixed4_def round_half_even_def digits.simps frac4_def digit_char_def
  floor_rat_numeral Let_def

lemma digit_cases: "d < 10 \<Longrightarrow> d \<in> {0, 1, 2, 3, 4, 5, 6, 7, 8, 9 :: nat}"
  by auto

lemma digit_val_digit_char: "d < 10 \<Longrightarrow> digit_val (digit_char d) = d"
  by (drule digit_cases) (auto simp: digit_char_def digit_val_def)

lemma is_digit_digit_char: "d < 10 \<Longrightarrow> is_digit (digit_char d)"
  by (drule digit_cases) (auto simp: digit_char_def is_digit_def)

lemma digit_char_eq_zero: "d < 10 \<Longrightarrow> digit_char d = CHR ''0'' \<longleftrightarrow> d = 0"
  by (drule digit_cases) (auto simp: digit_char_def)

lemma is_digit_not_point: "is_digit c \<Longrightarrow> c \<noteq> CHR ''.''"
  by (auto simp: is_digit_def)

lemma is_digit_not_minus: "is_digit c \<Longrightarrow> c \<noteq> CHR ''-''"
  by (auto simp: is_digit_def)

lemma nat_of_digits_append:
  "nat_of_digits (xs @ ys) = nat_of_digits xs * 10 ^ length ys + nat_of_digits ys"
proof (induction ys rule: rev_induct)
  case Nil
  show ?case by (simp add: nat_of_digits_def)
next
  case (snoc y ys)
  have "nat_of_digits (xs @ ys @ [y]) = 10 * nat_of_digits (xs @ ys) + digit_val y"
    by (simp add: nat_of_digits_def)
  also have "\<dots> = 10 * (nat_of_digits xs * 10 ^ length ys + nat_of_digits ys) + digit_val y"
    by (simp only: snoc.IH)
  also have "\<dots> = nat_of_digits xs * 10 ^ length (ys @ [y]) + nat_of_digits (ys @ [y])"
    by (simp add: nat_of_digits_def algebra_simps)
  finally show ?case by simp
qed

lemma nat_of_digits_single: "nat_of_digits [c] = digit_val c"
  by (simp add: nat_of_digits_def)

lemma nat_of_digits_zeros: "nat_of_digits (xs @ replicate k CHR ''0'') = nat_of_digits xs * 10 ^ k"
proof (induction k)
  case 0
  show ?case by simp
next
  case (Suc k)
  have "nat_of_digits (xs @ replicate (Suc k) CHR ''0'') =
          nat_of_digits ((xs @ replicate k CHR ''0'') @ [CHR ''0''])"
    by (simp add: replicate_append_same)
  also have "\<dots> = nat_of_digits (xs @ replicate k CHR ''0'') * 10"
    by (simp only: nat_of_digits_append) (simp add: nat_of_digits_single digit_val_def)
  finally show ?case by (simp add: Suc.IH)
qed

lemma digits_all: "list_all is_digit (digits n)"
proof (induction n rule: digits.induct)
  case (1 n)
  show ?case
  proof (cases "n < 10")
    case True
    then show ?thesis by (simp add: digits.simps [of n] is_digit_digit_char)
  next
    case False
    with 1 show ?thesis by (simp add: digits.simps [of n] is_digit_digit_char)
  qed
qed

lemma digits_nonempty: "digits n \<noteq> []"
  by (simp add: digits.simps [of n])

lemma nat_of_digits_digits: "nat_of_digits (digits n) = n"
proof (induction n rule: digits.induct)
  case (1 n)
  show ?case
  proof (cases "n < 10")
    case True
    then show ?thesis
      by (simp add: digits.simps [of n] nat_of_digits_single digit_val_digit_char)
  next
    case False
    with 1 have "nat_of_digits (digits (n div 10)) = n div 10" by simp
    with False show ?thesis
      by (simp add: digits.simps [of n] nat_of_digits_append nat_of_digits_single
          digit_val_digit_char)
  qed
qed

lemma frac4_all: "list_all is_digit (frac4 m)"
  by (simp add: frac4_def is_digit_digit_char)

lemma length_frac4: "length (frac4 m) = 4"
  by (simp add: frac4_def)

lemma nat_of_digits_frac4: "m < 10000 \<Longrightarrow> nat_of_digits (frac4 m) = m"
proof -
  assume m: "m < 10000"
  have a: "m mod (10 * 10) = 10 * (m div 10 mod 10) + m mod 10"
    by (rule mod_mult2_eq)
  have b: "m mod (100 * 10) = 100 * (m div 100 mod 10) + m mod 100"
    by (rule mod_mult2_eq)
  have c: "m mod (1000 * 10) = 1000 * (m div 1000 mod 10) + m mod 1000"
    by (rule mod_mult2_eq)
  have "nat_of_digits (frac4 m) =
          1000 * (m div 1000 mod 10) + 100 * (m div 100 mod 10) + 10 * (m div 10 mod 10) + m mod 10"
    by (simp add: frac4_def nat_of_digits_def digit_val_digit_char)
  also have "\<dots> = m mod 10000" using a b c by simp
  also have "\<dots> = m" using m by simp
  finally show ?thesis .
qed

lemma rstrip_snoc:
  "rstrip cs (xs @ [x]) = (if x \<in> set cs then rstrip cs xs else xs @ [x])"
  by (simp add: rstrip_def)

lemma rstrip_Nil: "rstrip cs [] = []"
  by (simp add: rstrip_def)

lemma rstrip_append:
  "rstrip cs (xs @ ys) = (if rstrip cs ys = [] then rstrip cs xs else xs @ rstrip cs ys)"
proof (induction ys rule: rev_induct)
  case Nil
  show ?case by (simp add: rstrip_Nil)
next
  case (snoc y ys)
  have "rstrip cs (xs @ ys @ [y]) = rstrip cs ((xs @ ys) @ [y])" by simp
  also have "\<dots> = (if y \<in> set cs then rstrip cs (xs @ ys) else (xs @ ys) @ [y])"
    by (rule rstrip_snoc)
  finally show ?case using snoc.IH by (simp add: rstrip_snoc)
qed

lemma rstrip_decomp: "\<exists>k. xs = rstrip [c] xs @ replicate k c"
proof (induction xs rule: rev_induct)
  case Nil
  show ?case by (simp add: rstrip_Nil)
next
  case (snoc x xs)
  show ?case
  proof (cases "x = c")
    case True
    from snoc.IH obtain k where k: "xs = rstrip [c] xs @ replicate k c" ..
    have "xs @ [x] = rstrip [c] xs @ replicate (Suc k) c"
      using True k by (metis append_assoc replicate_append_same replicate_Suc)
    moreover have "rstrip [c] (xs @ [x]) = rstrip [c] xs"
      using True by (simp add: rstrip_snoc)
    ultimately have "xs @ [x] = rstrip [c] (xs @ [x]) @ replicate (Suc k) c"
      by simp
    then show ?thesis ..
  next
    case False
    then have "xs @ [x] = rstrip [c] (xs @ [x]) @ replicate 0 c"
      by (simp add: rstrip_snoc)
    then show ?thesis ..
  qed
qed

lemma rstrip_last: "rstrip [c] xs \<noteq> [] \<Longrightarrow> last (rstrip [c] xs) \<noteq> c"
  by (induction xs rule: rev_induct) (auto simp: rstrip_Nil rstrip_snoc)

lemma rstrip_keeps: "xs \<noteq> [] \<Longrightarrow> last xs \<notin> set cs \<Longrightarrow> rstrip cs xs = xs"
  by (cases xs rule: rev_cases) (auto simp: rstrip_snoc)

lemma rstrip_all: "list_all P xs \<Longrightarrow> list_all P (rstrip cs xs)"
  by (induction xs rule: rev_induct) (auto simp: rstrip_Nil rstrip_snoc)

lemma round_half_even_near: "\<bar>of_int (round_half_even y) - y\<bar> \<le> 1 / 2"
proof -
  have "of_int \<lfloor>y\<rfloor> \<le> y" and "y < of_int \<lfloor>y\<rfloor> + 1" by linarith+
  then show ?thesis
    by (auto simp: round_half_even_def Let_def abs_le_iff)
qed

lemma round_half_even_nonneg: "0 \<le> y \<Longrightarrow> 0 \<le> round_half_even y"
proof -
  assume "0 \<le> y"
  then have "0 \<le> \<lfloor>y\<rfloor>" by simp
  then show ?thesis by (auto simp: round_half_even_def Let_def)
qed

lemma last_digits_not_point: "last (digits n) \<noteq> CHR ''.''"
proof -
  have "is_digit (last (digits n))"
    using digits_all [of n] digits_nonempty [of n] by (simp add: list_all_iff)
  then show ?thesis by (rule is_digit_not_point)
qed

lemma rstrip_frac_last:
  assumes "rstrip ''0'' (frac4 m) \<noteq> []"
  shows "last (rstrip ''0'' (frac4 m)) \<noteq> CHR ''.''"
    and "last (rstrip ''0'' (frac4 m)) \<noteq> CHR ''0''"
proof -
  have "list_all is_digit (rstrip ''0'' (frac4 m))"
    by (rule rstrip_all) (rule frac4_all)
  with assms have "is_digit (last (rstrip ''0'' (frac4 m)))"
    by (simp add: list_all_iff)
  then show "last (rstrip ''0'' (frac4 m)) \<noteq> CHR ''.''" by (rule is_digit_not_point)
  show "last (rstrip ''0'' (frac4 m)) \<noteq> CHR ''0''"
    using assms by (rule rstrip_last)
qed

lemma strip_formatted:
  "rstrip ''.'' (rstrip ''0'' (sg @ digits i @ ''.'' @ frac4 m)) =
     sg @ digits i @
     (if rstrip ''0'' (frac4 m) = [] then [] else CHR ''.'' # rstrip ''0'' (frac4 m))"
proof (cases "rstrip ''0'' (frac4 m) = []")
  case True
  have "rstrip ''0'' (sg @ digits i @ ''.'' @ frac4 m) =
          rstrip ''0'' ((sg @ digits i @ ''.'') @ frac4 m)" by simp
  also have "\<dots> = rstrip ''0'' ((sg @ digits i) @ ''.'')"
    using True by (simp only: rstrip_append) simp
  also have "\<dots> = (sg @ digits i) @ ''.''"
    by (simp only: rstrip_snoc) simp
  finally have "rstrip ''.'' (rstrip ''0'' (sg @ digits i @ ''.'' @ frac4 m)) =
                  rstrip ''.'' ((sg @ digits i) @ ''.'')" by simp
  also have "\<dots> = rstrip ''.'' (sg @ digits i)"
    by (simp only: rstrip_snoc) simp
  also have "\<dots> = sg @ digits i"
    by (rule rstrip_keeps) (simp_all add: digits_nonempty last_digits_not_point)
  finally show ?thesis using True by simp
next
  case False
  have "rstrip ''0'' (sg @ digits i @ ''.'' @ frac4 m) =
          rstrip ''0'' ((sg @ digits i @ ''.'') @ frac4 m)" by simp
  also have "\<dots> = (sg @ digits i @ ''.'') @ rstrip ''0'' (frac4 m)"
    using False by (simp only: rstrip_append) simp
  finally have "rstrip ''.'' (rstrip ''0'' (sg @ digits i @ ''.'' @ frac4 m)) =
                  rstrip ''.'' ((sg @ digits i @ ''.'') @ rstrip ''0'' (frac4 m))" by simp
  also have "\<dots> = (sg @ digits i @ ''.'') @ rstrip ''0'' (frac4 m)"
    by (rule rstrip_keeps) (use False rstrip_frac_last(1) [of m] in simp_all)
  finally show ?thesis using False by simp
qed

lemma coord_shape:
  "coord (Num x) =
     (if x < 0 then ''-'' else []) @ coord_body (nat (round_half_even (\<bar>x\<bar> * 10000)))"
  unfolding coord_def format_4f.simps fixed4_def Let_def coord_body_def
  by (rule strip_formatted)

lemma parse_unsigned_point:
  assumes "list_all is_digit ip" and "ip \<noteq> []" and "list_all is_digit fp"
  shows "parse_unsigned (ip @ (if fp = [] then [] else CHR ''.'' # fp)) =
           Some (of_nat (nat_of_digits (ip @ fp)) / 10 ^ length fp)"
proof -
  have ip: "\<forall>c \<in> set ip. c \<noteq> CHR ''.''"
    using assms(1) by (auto simp: list_all_iff dest: is_digit_not_point)
  show ?thesis
  proof (cases "fp = []")
    case True
    have tw: "takeWhile (\<lambda>c. c \<noteq> CHR ''.'') ip = ip" using ip by simp
    have dw: "dropWhile (\<lambda>c. c \<noteq> CHR ''.'') ip = []" using ip by simp
    show ?thesis
      using True assms(1,2) by (simp add: parse_unsigned_def tw dw)
  next
    case False
    have tw: "takeWhile (\<lambda>c. c \<noteq> CHR ''.'') (ip @ CHR ''.'' # fp) = ip"
      using ip by (simp add: takeWhile_append2)
    have dw: "dropWhile (\<lambda>c. c \<noteq> CHR ''.'') (ip @ CHR ''.'' # fp) = CHR ''.'' # fp"
      using ip by (simp add: dropWhile_append2)
    show ?thesis
      using False assms by (simp add: parse_unsigned_def tw dw)
  qed
qed

lemma value_of_body:
  "of_nat (nat_of_digits (digits (n div 10000) @ rstrip ''0'' (frac4 (n mod 10000)))) /
     10 ^ length (rstrip ''0'' (frac4 (n mod 10000))) = (of_nat n :: rat) / 10000"
proof -
  define F where "F = frac4 (n mod 10000)"
  define F' where "F' = rstrip ''0'' F"
  define N where "N = nat_of_digits (digits (n div 10000) @ F')"
  obtain k where k: "F = F' @ replicate k CHR ''0''"
    unfolding F'_def using rstrip_decomp [of F "CHR ''0''"] by auto
  have len: "length F' + k = 4"
    using arg_cong [OF k, of length] by (simp add: F_def length_frac4)
  have "n = n div 10000 * 10000 + n mod 10000" by simp
  also have "\<dots> = nat_of_digits (digits (n div 10000)) * 10 ^ length F + nat_of_digits F"
    by (simp add: F_def length_frac4 nat_of_digits_digits nat_of_digits_frac4)
  also have "\<dots> = nat_of_digits (digits (n div 10000) @ F)"
    by (simp only: nat_of_digits_append)
  also have "\<dots> = nat_of_digits ((digits (n div 10000) @ F') @ replicate k CHR ''0'')"
    using k by simp
  also have "\<dots> = N * 10 ^ k"
    unfolding N_def by (rule nat_of_digits_zeros)
  finally have n: "n = N * 10 ^ k" .
  have "(of_nat n :: rat) / 10000 = of_nat N * 10 ^ k / 10 ^ (length F' + k)"
    by (subst n) (simp add: len)
  also have "\<dots> = of_nat N / 10 ^ length F'"
    by (simp add: power_add)
  finally show ?thesis by (simp add: N_def F'_def F_def)
qed

lemma parse_coord_body: "parse_unsigned (coord_body n) = Some (of_nat n / 10000)"
proof -
  have "parse_unsigned (coord_body n) =
          Some (of_nat (nat_of_digits (digits (n div 10000) @ rstrip ''0'' (frac4 (n mod 10000)))) /
                10 ^ length (rstrip ''0'' (frac4 (n mod 10000))))"
    unfolding coord_body_def
    by (rule parse_unsigned_point) (simp_all add: digits_all digits_nonempty rstrip_all frac4_all)
  then show ?thesis by (simp only: value_of_body)
qed

lemma coord_body_head: "coord_body n \<noteq> [] \<and> hd (coord_body n) \<noteq> CHR ''-''"
proof -
  have "is_digit (hd (digits n'))" for n'
    using digits_all [of n'] digits_nonempty [of n'] by (simp add: list_all_iff)
  then have "hd (digits n') \<noteq> CHR ''-''" for n'
    by (rule is_digit_not_minus)
  then show ?thesis
    by (simp add: coord_body_def digits_nonempty)
qed

lemma parse_coord:
  "parse_decimal (coord (Num x)) =
     Some ((if x < 0 then - 1 else 1) * of_nat (nat (round_half_even (\<bar>x\<bar> * 10000))) / 10000)"
proof (cases "x < 0")
  case True
  then show ?thesis
    by (simp add: coord_shape parse_decimal_def parse_coord_body)
next
  case False
  obtain c r where cr: "coord_body (nat (round_half_even (\<bar>x\<bar> * 10000))) = c # r" and "c \<noteq> CHR ''-''"
    using coord_body_head [of "nat (round_half_even (\<bar>x\<bar> * 10000))"]
    by (cases "coord_body (nat (round_half_even (\<bar>x\<bar> * 10000)))") auto
  then have "parse_decimal (coord_body (nat (round_half_even (\<bar>x\<bar> * 10000)))) =
               parse_unsigned (coord_body (nat (round_half_even (\<bar>x\<bar> * 10000))))"
    by (simp add: parse_decimal_def)
  with False show ?thesis
    by (simp add: coord_shape parse_coord_body)
qed

lemma coord_value_near:
  "\<bar>(if x < 0 then - 1 else 1) * of_nat (nat (round_half_even (\<bar>x\<bar> * 10000))) / 10000 - x\<bar>
     \<le> 1 / 20000"
proof -
  define y where "y = \<bar>x\<bar> * 10000"
  have y: "0 \<le> y" by (simp add: y_def)
  have "of_nat (nat (round_half_even y)) = (of_int (round_half_even y) :: rat)"
    using round_half_even_nonneg [OF y] by simp
  moreover have "\<bar>of_int (round_half_even y) - y\<bar> \<le> 1 / 2"
    by (rule round_half_even_near)
  ultimately have "\<bar>of_nat (nat (round_half_even y)) - y\<bar> \<le> 1 / 2" by simp
  then have h: "\<bar>of_nat (nat (round_half_even y)) / 10000 - \<bar>x\<bar>\<bar> \<le> 1 / 20000"
    by (simp add: y_def abs_le_iff field_simps)
  show ?thesis
  proof (cases "x < 0")
    case True
    with h have "\<bar>- (of_nat (nat (round_half_even y)) / 10000) - x\<bar> \<le> 1 / 20000"
      by linarith
    with True show ?thesis by (simp add: y_def)
  next
    case False
    with h have "\<bar>of_nat (nat (round_half_even y)) / 10000 - x\<bar> \<le> 1 / 20000"
      by linarith
    with False show ?thesis by (simp add: y_def)
  qed
qed

lemma coord_last:
  "coord (Num x) \<noteq> [] \<and> last (coord (Num x)) \<noteq> CHR ''.'' \<and>
   (CHR ''.'' \<in> set (coord (Num x)) \<longrightarrow> last (coord (Num x)) \<noteq> CHR ''0'')"
proof -
  define n where "n = nat (round_half_even (\<bar>x\<bar> * 10000))"
  define F' where "F' = rstrip ''0'' (frac4 (n mod 10000))"
  have sg: "CHR ''.'' \<notin> set (if x < 0 then ''-'' else [])" by simp
  have dg: "CHR ''.'' \<notin> set (digits (n div 10000))"
    using digits_all [of "n div 10000"] by (auto simp: list_all_iff dest: is_digit_not_point)
  show ?thesis
  proof (cases "F' = []")
    case True
    then have "coord (Num x) = (if x < 0 then ''-'' else []) @ digits (n div 10000)"
      by (simp add: coord_shape coord_body_def n_def F'_def)
    then show ?thesis
      using sg dg by (simp add: digits_nonempty last_digits_not_point)
  next
    case False
    then have "coord (Num x) = ((if x < 0 then ''-'' else []) @ digits (n div 10000) @ ''.'') @ F'"
      by (simp add: coord_shape coord_body_def n_def F'_def)
    then have "coord (Num x) \<noteq> []" and "last (coord (Num x)) = last F'"
      using False by simp_all
    then show ?thesis
      using False rstrip_frac_last [of "n mod 10000"] by (simp add: F'_def)
  qed
qed

text \<open>
  C3. For every coordinate of a real value \<open>v\<close>, the string \<open>coord (Num v)\<close> reads back
  as a number less than 1e-4 away from \<open>v\<close>; it is not empty, does not end with a point,
  and when it has a point it does not end with the digit 0. So 2.5 is written "2.5", 3.0
  is written "3" and 0.1234 is written "0.1234". (The zero with the minus sign is written
  "-0", which reads back as zero.)
\<close>

theorem coord_roundtrip:
  "(\<exists>r. parse_decimal (coord (Num v)) = Some r \<and> \<bar>r - v\<bar> < 1 / 10000)
   \<and> coord (Num v) \<noteq> [] \<and> last (coord (Num v)) \<noteq> CHR ''.''
   \<and> (CHR ''.'' \<in> set (coord (Num v)) \<longrightarrow> last (coord (Num v)) \<noteq> CHR ''0'')
   \<and> coord (Num (5 / 2)) = ''2.5'' \<and> coord (Num 3) = ''3'' \<and> coord (Num (1234 / 10000)) = ''0.1234''
   \<and> coord NegZero = ''-0'' \<and> parse_decimal (coord NegZero) = Some 0"
proof -
  have nz: "coord NegZero = ''-0''" by (simp add: coord_eval)
  have "parse_decimal ''-0'' = Some 0"
    by (simp add: parse_decimal_def parse_unsigned_def is_digit_def nat_of_digits_def digit_val_def)
  with nz have nzp: "parse_decimal (coord NegZero) = Some 0" by simp
  have "\<bar>(if v < 0 then - 1 else 1) * of_nat (nat (round_half_even (\<bar>v\<bar> * 10000))) / 10000 - v\<bar>
          < 1 / 10000"
    using coord_value_near [of v] by linarith
  then have "\<exists>r. parse_decimal (coord (Num v)) = Some r \<and> \<bar>r - v\<bar> < 1 / 10000"
    by (simp only: parse_coord) blast
  moreover have "coord (Num (5 / 2)) = ''2.5''" by (simp add: coord_eval)
  moreover have "coord (Num 3) = ''3''" by (simp add: coord_eval)
  moreover have "coord (Num (1234 / 10000)) = ''0.1234''" by (simp add: coord_eval)
  ultimately show ?thesis using coord_last [of v] nz nzp by blast
qed

theorem coord_roundtrip_witness:
  "parse_decimal (coord (Num (5 / 2))) = Some (5 / 2)
   \<and> CHR ''.'' \<in> set (coord (Num (5 / 2))) \<and> last (coord (Num (5 / 2))) \<noteq> CHR ''0''"
proof -
  have c: "coord (Num (5 / 2)) = ''2.5''" by (simp add: coord_eval)
  have "parse_decimal ''2.5'' = Some (5 / 2)"
    by (simp add: parse_decimal_def parse_unsigned_def is_digit_def nat_of_digits_def digit_val_def)
  then show ?thesis using coord_roundtrip [of "5 / 2"] by (simp add: c)
qed

subsection \<open>The element primitive\<close>

lemma concat_style_loop:
  "concat (style_loop d second out) =
     concat out @ (if d = [] then [] else (if second then ''; '' else []) @ join ''; '' (map style_item d))"
proof (induction d arbitrary: second out)
  case Nil
  show ?case by simp
next
  case (Cons kv d)
  obtain k v where kv: "kv = (k, v)" by (cases kv)
  have "concat (style_loop (kv # d) second out) =
          concat (style_loop d True ((if second then out @ [''; ''] else out) @ [k, '':'', v]))"
    by (simp add: kv)
  also have "\<dots> = concat ((if second then out @ [''; ''] else out) @ [k, '':'', v]) @
                     (if d = [] then [] else ''; '' @ join ''; '' (map style_item d))"
    by (subst Cons.IH) simp
  also have "\<dots> = concat out @ (if second then ''; '' else []) @
                     join ''; '' (map style_item (kv # d))"
    by (cases d) (simp_all add: kv style_item_def)
  finally show ?case by simp
qed

lemma element_nesting: "nesting (element e delta unspaced style morestyle s) = nesting s + delta"
  by (simp add: element_def Let_def)

lemma element_prefix: "prefix (element e delta unspaced style morestyle s) = prefix s"
  by (simp add: element_def Let_def)

lemma element_indentation:
  "indentation (element e delta unspaced style morestyle s) = indentation s"
  by (simp add: element_def Let_def)

lemma element_heap:
  "heap (element e delta unspaced style morestyle s) =
     heap s @ [merged_style (heap s ! style) morestyle]"
  by (simp add: element_def Let_def merged_style_def)

lemma element_stream:
  "stream (element e delta unspaced style morestyle s) =
     stream s @
     (if delta \<ge> 0 \<or> \<not> unspaced
      then spaces (indentation s + 2 * (if delta < 0 then nesting s + delta else nesting s))
      else []) @
     ''<'' @ (if delta < 0 then ''/'' else []) @ prefix s @ e @
     style_attr (merged_style (heap s ! style) morestyle) @
     (if delta = 0 then ''/'' else []) @ ''>'' @
     (if delta \<le> 0 \<or> \<not> unspaced then nl else [])"
  by (simp add: element_def Let_def merged_style_def style_attr_def concat_style_loop)

lemma dict_setitem_new: "k \<notin> fst ` set d \<Longrightarrow> dict_setitem d k v = d @ [(k, v)]"
  by (induction d) auto

lemma map_of_dict_setitem: "map_of (dict_setitem d k v) = (map_of d)(k \<mapsto> v)"
  by (induction d) auto

lemma keys_dict_setitem:
  "map fst (dict_setitem d k v) = (if k \<in> fst ` set d then map fst d else map fst d @ [k])"
  by (induction d) force+

lemma dict_update_Nil: "dict_update d [] = d"
  by (simp add: dict_update_def)

lemma dict_update_Cons: "dict_update d ((k, v) # m) = dict_update (dict_setitem d k v) m"
  by (simp add: dict_update_def)

lemma dict_update_fresh: "distinct (map fst (a @ d)) \<Longrightarrow> dict_update a d = a @ d"
proof (induction d arbitrary: a)
  case Nil
  show ?case by (simp add: dict_update_Nil)
next
  case (Cons kv d)
  obtain k v where kv: "kv = (k, v)" by (cases kv)
  from Cons.prems have "k \<notin> fst ` set a" by (auto simp: kv)
  then have "dict_setitem a k v = a @ [(k, v)]" by (rule dict_setitem_new)
  moreover from Cons.prems have "distinct (map fst ((a @ [(k, v)]) @ d))" by (auto simp: kv)
  ultimately show ?case using Cons.IH [of "a @ [(k, v)]"] by (simp add: kv dict_update_Cons)
qed

lemma dict_copy_dict: "distinct (map fst d) \<Longrightarrow> dict_copy d = d"
  using dict_update_fresh [of "[]" d] by (simp add: dict_copy_def)

lemma map_of_dict_update:
  "distinct (map fst m) \<Longrightarrow> map_of (dict_update d m) = map_of d ++ map_of m"
proof (induction m arbitrary: d)
  case Nil
  show ?case by (simp add: dict_update_Nil)
next
  case (Cons kv m)
  obtain k v where kv: "kv = (k, v)" by (cases kv)
  from Cons.prems have k: "k \<notin> fst ` set m" and m: "distinct (map fst m)" by (auto simp: kv)
  from k have km: "map_of m k = None" by (simp add: map_of_eq_None_iff)
  have "map_of (dict_update d (kv # m)) = map_of (dict_setitem d k v) ++ map_of m"
    by (simp only: kv dict_update_Cons Cons.IH [OF m])
  also have "\<dots> = map_of d ++ map_of (kv # m)"
  proof
    fix x
    show "(map_of (dict_setitem d k v) ++ map_of m) x = (map_of d ++ map_of (kv # m)) x"
      using km by (cases "map_of m x") (auto simp: kv map_of_dict_setitem map_add_def)
  qed
  finally show ?case .
qed

lemma keys_dict_update:
  "distinct (map fst m) \<Longrightarrow>
     map fst (dict_update d m) = map fst d @ filter (\<lambda>k. k \<notin> fst ` set d) (map fst m)"
proof (induction m arbitrary: d)
  case Nil
  show ?case by (simp add: dict_update_Nil)
next
  case (Cons kv m)
  obtain k v where kv: "kv = (k, v)" by (cases kv)
  from Cons.prems have k: "k \<notin> fst ` set m" and m: "distinct (map fst m)" by (auto simp: kv)
  have keys: "fst ` set (dict_setitem d k v) = insert k (fst ` set d)"
    using arg_cong [OF keys_dict_setitem [of d k v], of set] by (auto split: if_splits)
  have "filter (\<lambda>k'. k' \<notin> insert k (fst ` set d)) (map fst m) =
          filter (\<lambda>k'. k' \<notin> fst ` set d) (map fst m)"
    using k by (intro filter_cong) auto
  then show ?case
    by (simp add: kv dict_update_Cons Cons.IH [OF m] keys keys_dict_setitem)
qed

lemma merged_style_dict:
  assumes "distinct (map fst base)" and "distinct (map fst morestyle)"
  shows "map_of (merged_style base morestyle) = map_of base ++ map_of morestyle"
    and "map fst (merged_style base morestyle) =
           map fst base @ filter (\<lambda>k. k \<notin> fst ` set base) (map fst morestyle)"
    and "distinct (map fst (merged_style base morestyle))"
proof -
  show "map_of (merged_style base morestyle) = map_of base ++ map_of morestyle"
    using assms by (simp add: merged_style_def dict_copy_dict map_of_dict_update)
  show keys: "map fst (merged_style base morestyle) =
           map fst base @ filter (\<lambda>k. k \<notin> fst ` set base) (map fst morestyle)"
    using assms by (simp add: merged_style_def dict_copy_dict keys_dict_update)
  show "distinct (map fst (merged_style base morestyle))"
    unfolding keys using assms by auto
qed

lemmas shape_defs =
  group_def ungroup_def circle_def rectangle_def polygon_def polyline_def segment_def arc_def
  svg_text_def

lemma final_state_polycurve_cases:
  "final_state (polycurve points style morestyle s) = s \<or>
   (\<exists>e. final_state (polycurve points style morestyle s) = element e 0 False style morestyle s)"
  by (auto simp: polycurve_def final_state_def split: sum.splits)

lemma heap_prefix_element:
  "take (length (heap s)) (heap (element e delta unspaced style morestyle s)) = heap s"
  by (simp add: element_heap)

lemma length_heap_element:
  "length (heap (element e delta unspaced style morestyle s)) = Suc (length (heap s))"
  by (simp add: element_heap)

lemma heap_prefix_text:
  "take (length (heap s)) (heap (svg_text label location style morestyle s)) = heap s"
  by (simp add: svg_text_def Let_def element_heap)

lemma nesting_element_calls:
  "nesting (element_calls cs s) = nesting s + sum_list (deltas cs)"
  by (induction cs s rule: element_calls.induct) (simp_all add: deltas_def element_nesting)

lemma heap_prefix_element_calls:
  "take (length (heap s)) (heap (element_calls cs s)) = heap s"
proof (induction cs s rule: element_calls.induct)
  case (1 s)
  show ?case by simp
next
  case (2 e delta unspaced style morestyle cs s)
  have "take (length (heap s)) (heap (element_calls cs (element e delta unspaced style morestyle s))) =
          take (length (heap s))
            (take (length (heap (element e delta unspaced style morestyle s)))
               (heap (element_calls cs (element e delta unspaced style morestyle s))))"
    by (simp add: element_heap min_def)
  also have "\<dots> = take (length (heap s)) (heap (element e delta unspaced style morestyle s))"
    by (simp only: "2.IH")
  also have "\<dots> = heap s" by (rule heap_prefix_element)
  finally show ?case by simp
qed

lemma matching_balance:
  "int (fst (matching ds opens closes)) - int (snd (matching ds opens closes)) =
     int opens - int closes + int (count_list ds 1) - int (count_list ds (- 1))"
  by (induction ds opens closes rule: matching.induct) (auto split: nat.splits)

lemma sum_list_deltas:
  "list_all (\<lambda>d. d \<in> {- 1, 0, 1}) ds \<Longrightarrow>
     sum_list ds = int (count_list ds 1) - int (count_list ds (- 1))"
  by (induction ds) auto

lemma close_cases:
  "close s =
     (if nesting s \<noteq> 1
      then Inl (Exception ''SVG: Unclosed tags'', element ''svg'' (- 1) False element_style [] s)
      else Inr (element ''svg'' (- 1) False element_style [] s))"
  by (simp add: close_def Let_def element_nesting)

lemma nesting_svg_init:
  "nesting (svg_init bbox stream0 standalone prefix0 indentation0 heap0) = 1"
  by (simp add: svg_init_def Let_def element_nesting)

text \<open>
  C5. A call of \<open>element\<close> merges the style dict it is given with the keyword arguments,
  a keyword argument replacing the value of a key that is in both; the keys stay in the
  order they are met (those of the style dict, then the new ones of the keyword
  arguments). The tag carries the one attribute \<open>style="key1:value1; key2:value2"\<close> of
  the merged pairs when there is a pair, and no style attribute when there is none.
\<close>

theorem element_style_attribute:
  assumes "distinct (map fst (heap s ! style))" and "distinct (map fst morestyle)"
  shows "map_of (merged_style (heap s ! style) morestyle) =
           map_of (heap s ! style) ++ map_of morestyle
       \<and> map fst (merged_style (heap s ! style) morestyle) =
           map fst (heap s ! style) @
           filter (\<lambda>k. k \<notin> fst ` set (heap s ! style)) (map fst morestyle)
       \<and> distinct (map fst (merged_style (heap s ! style) morestyle))
       \<and> style_attr [] = []
       \<and> stream (element e delta unspaced style morestyle s) =
           stream s @
           (if delta \<ge> 0 \<or> \<not> unspaced
            then spaces (indentation s + 2 * (if delta < 0 then nesting s + delta else nesting s))
            else []) @
           ''<'' @ (if delta < 0 then ''/'' else []) @ prefix s @ e @
           (if merged_style (heap s ! style) morestyle = [] then []
            else '' style='' @ dq @
                 join ''; '' (map (\<lambda>kv. fst kv @ '':'' @ snd kv)
                                (merged_style (heap s ! style) morestyle)) @ dq) @
           (if delta = 0 then ''/'' else []) @ ''>'' @
           (if delta \<le> 0 \<or> \<not> unspaced then nl else [])"
proof -
  have "style_item = (\<lambda>kv. fst kv @ '':'' @ snd kv)"
    by (rule ext) (simp add: style_item_def)
  then show ?thesis
    using merged_style_dict [OF assms] element_stream [of e delta unspaced style morestyle s]
    by (simp add: style_attr_def)
qed

theorem element_style_attribute_witness:
  "distinct (map fst [(''fill'', ''red''), (''stroke'', ''black'')])
   \<and> distinct (map fst [(''stroke'', ''blue''), (''opacity'', ''1'')])
   \<and> merged_style [(''fill'', ''red''), (''stroke'', ''black'')]
        [(''stroke'', ''blue''), (''opacity'', ''1'')] =
      [(''fill'', ''red''), (''stroke'', ''blue''), (''opacity'', ''1'')]
   \<and> stream (element ''g'' 1 False 0 [(''stroke'', ''blue''), (''opacity'', ''1'')]
        \<lparr>stream = [], prefix = [], indentation = 0, nesting = 1,
         heap = [[(''fill'', ''red''), (''stroke'', ''black'')]]\<rparr>) =
      ''  <g style='' @ dq @ ''fill:red; stroke:blue; opacity:1'' @ dq @ ''>'' @ nl"
proof -
  have m: "merged_style [(''fill'', ''red''), (''stroke'', ''black'')]
        [(''stroke'', ''blue''), (''opacity'', ''1'')] =
      [(''fill'', ''red''), (''stroke'', ''blue''), (''opacity'', ''1'')]"
    by (simp add: merged_style_def dict_copy_def dict_update_def)
  show ?thesis
    using element_style_attribute [of
        "\<lparr>stream = [], prefix = [], indentation = 0, nesting = 1,
          heap = [[(''fill'', ''red''), (''stroke'', ''black'')]]\<rparr>"
        0 "[(''stroke'', ''blue''), (''opacity'', ''1'')]" "''g''" 1 False]
    by (simp add: m spaces_def numeral_2_eq_2)
qed

text \<open>
  C6, as the code has it. The tag is preceded by \<open>indentation + 2 * depth\<close> spaces (none
  when that number is negative) whenever \<open>delta \<ge> 0\<close> or the tag is not unspaced, where
  the depth is the nesting after the decrement for a close and the nesting before the
  increment for an open or standalone tag; only an unspaced close has no leading spaces.
  A newline follows the tag exactly when \<open>delta \<le> 0\<close> or the tag is not unspaced.
\<close>

theorem element_layout:
  "stream (element e delta unspaced style morestyle s) =
     stream s @
     (if delta \<ge> 0 \<or> \<not> unspaced
      then replicate (nat (indentation s + 2 * (if delta < 0 then nesting s + delta else nesting s)))
             CHR '' ''
      else []) @
     ''<'' @ (if delta < 0 then ''/'' else []) @ prefix s @ e @
     style_attr (merged_style (heap s ! style) morestyle) @
     (if delta = 0 then ''/'' else []) @ ''>'' @
     (if delta \<le> 0 \<or> \<not> unspaced then nl else [])"
  using element_stream [of e delta unspaced style morestyle s] by (simp add: spaces_def)

text \<open>
  C6 as it is stated does not hold: the opening tag of a text element is unspaced and is
  written with its two leading spaces at nesting 1.
\<close>

theorem unspaced_open_is_indented:
  "stream (element ''text'' 1 True element_style []
     \<lparr>stream = [], prefix = [], indentation = 0, nesting = 1, heap = module_heap\<rparr>) =
   ''  <text>''"
  by (simp add: element_def element_style_def module_heap_def dict_copy_def dict_update_def
      spaces_def numeral_2_eq_2)

text \<open>
  C9. A call of \<open>element\<close> puts the merged style into a new dict at the end of the
  store and leaves every dict that was there as it was, the one its style argument refers
  to and the shared defaults included; so do a sequence of such calls, every shape
  method, \<open>close\<close> and the constructor.
\<close>

theorem style_argument_not_mutated:
  "heap (element e delta unspaced style morestyle s) =
     heap s @ [dict_update (dict_copy (heap s ! style)) morestyle]
   \<and> (\<forall>a < length (heap s). heap (element e delta unspaced style morestyle s) ! a = heap s ! a)
   \<and> take (length (heap s)) (heap (element_calls cs s)) = heap s
   \<and> take (length (heap s)) (heap (group style morestyle s)) = heap s
   \<and> take (length (heap s)) (heap (ungroup s)) = heap s
   \<and> take (length (heap s)) (heap (circle center radius style morestyle s)) = heap s
   \<and> take (length (heap s)) (heap (rectangle p q style morestyle s)) = heap s
   \<and> take (length (heap s)) (heap (polygon points style morestyle s)) = heap s
   \<and> take (length (heap s)) (heap (polyline points style morestyle s)) = heap s
   \<and> take (length (heap s)) (heap (final_state (polycurve points style morestyle s))) = heap s
   \<and> take (length (heap s)) (heap (segment p q style morestyle s)) = heap s
   \<and> take (length (heap s)) (heap (arc p q r large style morestyle s)) = heap s
   \<and> take (length (heap s)) (heap (svg_text label location style morestyle s)) = heap s
   \<and> take (length (heap s)) (heap (final_state (close s))) = heap s
   \<and> take (length heap0)
        (heap (svg_init bbox stream0 standalone prefix0 indentation0 heap0)) = heap0"
proof -
  have "take (length (heap s)) (heap (final_state (polycurve points style morestyle s))) = heap s"
    using final_state_polycurve_cases [of points style morestyle s]
    by (auto simp: element_heap)
  moreover have "take (length (heap s)) (heap (final_state (close s))) = heap s"
    by (simp add: close_cases final_state_def element_heap)
  moreover have "take (length heap0)
        (heap (svg_init bbox stream0 standalone prefix0 indentation0 heap0)) = heap0"
    by (simp add: svg_init_def Let_def element_heap)
  moreover have "\<forall>a < length (heap s). heap (element e delta unspaced style morestyle s) ! a = heap s ! a"
    by (simp add: element_heap nth_append)
  ultimately show ?thesis
    by (simp add: shape_defs Let_def element_heap heap_prefix_element_calls merged_style_def)
qed

theorem style_argument_not_mutated_witness:
  "element_style < length (heap \<lparr>stream = [], prefix = [], indentation = 0, nesting = 1,
                                heap = module_heap\<rparr>)
   \<and> heap (element ''g'' 1 False element_style [(''fill'', ''red'')]
        \<lparr>stream = [], prefix = [], indentation = 0, nesting = 1, heap = module_heap\<rparr>)
      ! element_style = []
   \<and> stream (element ''g'' (- 1) False element_style []
        (element ''g'' 1 False element_style [(''fill'', ''red'')]
           \<lparr>stream = [], prefix = [], indentation = 0, nesting = 1, heap = module_heap\<rparr>)) =
      ''  <g style='' @ dq @ ''fill:red'' @ dq @ ''>'' @ nl @ ''  </g>'' @ nl"
proof -
  have "stream (element ''g'' (- 1) False element_style []
        (element ''g'' 1 False element_style [(''fill'', ''red'')]
           \<lparr>stream = [], prefix = [], indentation = 0, nesting = 1, heap = module_heap\<rparr>)) =
      ''  <g style='' @ dq @ ''fill:red'' @ dq @ ''>'' @ nl @ ''  </g>'' @ nl"
    by (simp add: element_stream element_heap element_nesting element_prefix element_indentation
        element_style_def module_heap_def merged_style_def dict_copy_def dict_update_def
        style_attr_def style_item_def spaces_def numeral_2_eq_2)
  then show ?thesis
    using style_argument_not_mutated [of "''g''" 1 False element_style "[(''fill'', ''red'')]"
        "\<lparr>stream = [], prefix = [], indentation = 0, nesting = 1, heap = module_heap\<rparr>"]
    by (simp add: element_style_def module_heap_def)
qed

text \<open>
  C10. The nesting counter is 1 after construction; circle, rectangle, polygon,
  polyline, polycurve, segment, arc and text leave it as it was; group adds one, ungroup
  and close take one away.
\<close>

theorem nesting_counter:
  "nesting (svg_init bbox stream0 standalone prefix0 indentation0 heap0) = 1
   \<and> nesting (circle center radius style morestyle s) = nesting s
   \<and> nesting (rectangle p q style morestyle s) = nesting s
   \<and> nesting (polygon points style morestyle s) = nesting s
   \<and> nesting (polyline points style morestyle s) = nesting s
   \<and> nesting (final_state (polycurve points style morestyle s)) = nesting s
   \<and> nesting (segment p q style morestyle s) = nesting s
   \<and> nesting (arc p q r large style morestyle s) = nesting s
   \<and> nesting (svg_text label location style morestyle s) = nesting s
   \<and> nesting (group style morestyle s) = nesting s + 1
   \<and> nesting (ungroup s) = nesting s - 1
   \<and> nesting (final_state (close s)) = nesting s - 1"
proof -
  have "nesting (final_state (polycurve points style morestyle s)) = nesting s"
    using final_state_polycurve_cases [of points style morestyle s]
    by (auto simp: element_nesting)
  moreover have "nesting (final_state (close s)) = nesting s - 1"
    by (simp add: close_def final_state_def Let_def element_nesting)
  moreover have "nesting (svg_init bbox stream0 standalone prefix0 indentation0 heap0) = 1"
    by (simp add: svg_init_def Let_def element_nesting)
  ultimately show ?thesis
    by (simp add: shape_defs Let_def element_nesting)
qed

text \<open>
  C2, as the code has it. For calls with deltas -1, 0 and +1 after construction:
  when every opening call is matched by a later closing call in nesting order, \<open>close\<close>
  succeeds; and \<open>close\<close> raises "SVG: Unclosed tags" exactly when the number of opening
  calls differs from the number of closing calls.
\<close>

theorem close_counts:
  assumes "list_all (\<lambda>d. d \<in> {- 1, 0, 1}) (deltas cs)"
  shows "(matching (deltas cs) 0 0 = (0, 0) \<longrightarrow>
            close (element_calls cs (svg_init bbox stream0 standalone prefix0 indentation0 heap0)) =
            Inr (element ''svg'' (- 1) False element_style []
                  (element_calls cs (svg_init bbox stream0 standalone prefix0 indentation0 heap0))))
       \<and> close (element_calls cs (svg_init bbox stream0 standalone prefix0 indentation0 heap0)) =
           (if count_list (deltas cs) 1 \<noteq> count_list (deltas cs) (- 1)
            then Inl (Exception ''SVG: Unclosed tags'',
                      element ''svg'' (- 1) False element_style []
                        (element_calls cs (svg_init bbox stream0 standalone prefix0 indentation0 heap0)))
            else Inr (element ''svg'' (- 1) False element_style []
                        (element_calls cs (svg_init bbox stream0 standalone prefix0 indentation0 heap0))))"
proof -
  let ?s = "element_calls cs (svg_init bbox stream0 standalone prefix0 indentation0 heap0)"
  have n: "nesting ?s = 1 + (int (count_list (deltas cs) 1) - int (count_list (deltas cs) (- 1)))"
    by (simp add: nesting_element_calls nesting_svg_init sum_list_deltas [OF assms])
  have m: "matching (deltas cs) 0 0 = (0, 0) \<Longrightarrow>
             count_list (deltas cs) 1 = count_list (deltas cs) (- 1)"
    using matching_balance [of "deltas cs" 0 0] by simp
  show ?thesis
    using m by (auto simp: close_cases n)
qed

theorem close_counts_witness:
  "list_all (\<lambda>d. d \<in> {- 1, 0, 1})
     (deltas [(''g'', 1, False, element_style, []), (''circle'', 0, False, element_style, []),
              (''g'', - 1, False, element_style, [])])
   \<and> matching (deltas [(''g'', 1, False, element_style, []), (''circle'', 0, False, element_style, []),
                         (''g'', - 1, False, element_style, [])]) 0 0 = (0, 0)
   \<and> isl (close (element_calls
        [(''g'', 1, False, element_style, []), (''circle'', 0, False, element_style, []),
         (''g'', - 1, False, element_style, [])]
        (svg_init (Point (Num 100) (Num 100)) [] True None 0 module_heap))) = False
   \<and> isl (close (element_calls [(''g'', 1, False, element_style, [])]
        (svg_init (Point (Num 100) (Num 100)) [] True None 0 module_heap))) = True"
proof -
  have a: "list_all (\<lambda>d. d \<in> {- 1, 0, 1})
     (deltas [(''g'', 1, False, element_style, []), (''circle'', 0, False, element_style, []),
              (''g'', - 1, False, element_style, [])])"
    by (simp add: deltas_def)
  have b: "list_all (\<lambda>d. d \<in> {- 1, 0, 1}) (deltas [(''g'', 1, False, element_style, [])])"
    by (simp add: deltas_def)
  show ?thesis
    using close_counts [OF a, of "Point (Num 100) (Num 100)" "[]" True None 0 module_heap]
      close_counts [OF b, of "Point (Num 100) (Num 100)" "[]" True None 0 module_heap]
    by (simp add: deltas_def)
qed

text \<open>
  C2 as it is stated does not hold: a closing call followed by an opening call has an
  unmatched close and an unmatched open, and \<open>close\<close> does not raise.
\<close>

theorem close_misses_unmatched_pair:
  "matching (deltas [(''g'', - 1, False, element_style, []), (''g'', 1, False, element_style, [])])
     0 0 = (1, 1)
   \<and> isl (close (element_calls
        [(''g'', - 1, False, element_style, []), (''g'', 1, False, element_style, [])]
        (svg_init (Point (Num 100) (Num 100)) [] True None 0 module_heap))) = False"
  by (simp add: deltas_def close_cases element_nesting nesting_svg_init)

subsection \<open>Floats\<close>

lemma pow2_pos: "0 < pow2 k"
  by (simp add: pow2_def)

lemma round_pos_nonneg: "0 \<le> a \<Longrightarrow> 0 \<le> round_pos a"
proof -
  assume "0 \<le> a"
  then have "0 \<le> a / quantum a"
    using pow2_pos [of "max (ilog2 a) (- 1022) - 52"] by (simp add: quantum_def)
  then have "0 \<le> round_half_even (a / quantum a)" by (rule round_half_even_nonneg)
  then show ?thesis
    using pow2_pos [of "max (ilog2 a) (- 1022) - 52"] by (simp add: round_pos_def quantum_def)
qed

lemma fabs_fround: "fabs (fround x) = (if 2 ^ 1024 \<le> round_pos \<bar>x\<bar> then PosInf else Num (round_pos \<bar>x\<bar>))"
  using round_pos_nonneg [of "\<bar>x\<bar>"]
  by (auto simp: fround_def Let_def finf_def fzero_def)

lemma fabs_fround_minus: "fabs (fround (- x)) = fabs (fround x)"
  by (simp add: fabs_fround)

lemma fabs_fsub_commute: "fabs (fsub a b) = fabs (fsub b a)"
proof -
  have fin: "fabs (fadd a (fneg b)) = fabs (fadd b (fneg a))"
    if "is_finite a" and "is_finite b" for a b
  proof -
    have v: "fval (fneg c) = - fval c" "is_finite (fneg c)" "fneg c \<noteq> NaN" "c \<noteq> NaN"
      if "is_finite c" for c using that by (cases c; simp)+
    show ?thesis
    proof (cases "fval a - fval b = 0")
      case True
      then have "fval b - fval a = 0" by simp
      with True that show ?thesis by (simp add: fadd_def v fzero_def)
    next
      case False
      then have ne: "fval b - fval a \<noteq> 0" by simp
      have "fabs (fround (fval b - fval a)) = fabs (fround (fval a - fval b))"
        using fabs_fround_minus [of "fval a - fval b"] by simp
      with False ne that show ?thesis by (simp add: fadd_def v)
    qed
  qed
  show ?thesis
  proof (cases "is_finite a \<and> is_finite b")
    case True
    then show ?thesis by (simp add: fsub_def fin)
  next
    case False
    then show ?thesis
      by (cases a; cases b) (simp_all add: fsub_def fadd_def)
  qed
qed

lemma fmin_commute:
  assumes "a \<noteq> NaN" and "b \<noteq> NaN" and "\<not> (is_zero a \<and> is_zero b \<and> a \<noteq> b)"
  shows "fmin a b = fmin b a"
  using assms by (cases a; cases b) (auto simp: fmin_def flt_def is_zero_def)

lemmas float_eval =
  fadd_def fsub_def fmul_def ieee_div_def fdiv_def fpow2_def is_zero_def fzero_def finf_def
  flt_def fmin_def fround_def round_pos_def quantum_def pow2_def ilog2.simps
  round_half_even_def floor_rat_numeral Let_def



subsection \<open>Rectangles\<close>

text \<open>
  C1 at the corners (0, 1) and (2, 3): the y attribute written is "0", the formatted
  minimum of the two x coordinates, where the minimum of the two y coordinates is 1.
\<close>

theorem rectangle_y_attribute:
  "stream (rectangle (Point (Num 0) (Num 1)) (Point (Num 2) (Num 3)) rectangle_style []
     \<lparr>stream = [], prefix = [], indentation = 0, nesting = 1, heap = module_heap\<rparr>) =
   ''  <rect x='' @ dq @ ''0'' @ dq @ '' y='' @ dq @ ''0'' @ dq @
   '' width='' @ dq @ ''2'' @ dq @ '' height='' @ dq @ ''2'' @ dq @ ''/>'' @ nl
   \<and> coord (fmin (im (Point (Num 0) (Num 1))) (im (Point (Num 2) (Num 3)))) = ''1''"
proof -
  have c: "coord (Num 0) = ''0''" "coord (Num 1) = ''1''" "coord (Num 2) = ''2''"
    by (simp_all add: coord_eval)
  have m: "fmin (Num 0) (Num 2) = Num 0" "fmin (Num 1) (Num 3) = Num 1"
    by (simp_all add: float_eval)
  have d: "fabs (fsub (Num 0) (Num 2)) = Num 2" "fabs (fsub (Num 1) (Num 3)) = Num 2"
    by (simp_all add: float_eval)
  show ?thesis
    by (simp add: rectangle_def element_stream csub_def c m d rectangle_style_def module_heap_def
        merged_style_def dict_copy_def dict_update_def style_attr_def spaces_def numeral_2_eq_2)
qed

text \<open>
  C7, as the code has it. When the real parts of \<open>p\<close> and \<open>q\<close> are not nan and are not
  the two zeros of opposite sign, \<open>rectangle(p, q, style)\<close> and \<open>rectangle(q, p, style)\<close>
  write the same text to the stream (and leave the same state).
\<close>

theorem rectangle_swap:
  assumes "re p \<noteq> NaN" and "re q \<noteq> NaN"
    and "\<not> (is_zero (re p) \<and> is_zero (re q) \<and> re p \<noteq> re q)"
  shows "rectangle p q style morestyle s = rectangle q p style morestyle s
       \<and> stream (rectangle p q style morestyle s) = stream (rectangle q p style morestyle s)"
proof -
  have "fmin (re p) (re q) = fmin (re q) (re p)" using assms by (rule fmin_commute)
  moreover have "fabs (re (csub p q)) = fabs (re (csub q p))"
    by (simp add: csub_def fabs_fsub_commute)
  moreover have "fabs (im (csub p q)) = fabs (im (csub q p))"
    by (simp add: csub_def fabs_fsub_commute)
  ultimately show ?thesis by (simp add: rectangle_def Let_def)
qed

theorem rectangle_swap_witness:
  "re (Point (Num 0) (Num 1)) \<noteq> NaN \<and> re (Point (Num 2) (Num 3)) \<noteq> NaN
   \<and> \<not> (is_zero (re (Point (Num 0) (Num 1))) \<and> is_zero (re (Point (Num 2) (Num 3)))
          \<and> re (Point (Num 0) (Num 1)) \<noteq> re (Point (Num 2) (Num 3)))
   \<and> stream (rectangle (Point (Num 2) (Num 3)) (Point (Num 0) (Num 1)) rectangle_style []
        \<lparr>stream = [], prefix = [], indentation = 0, nesting = 1, heap = module_heap\<rparr>) =
      stream (rectangle (Point (Num 0) (Num 1)) (Point (Num 2) (Num 3)) rectangle_style []
        \<lparr>stream = [], prefix = [], indentation = 0, nesting = 1, heap = module_heap\<rparr>)"
  using rectangle_swap [of "Point (Num 0) (Num 1)" "Point (Num 2) (Num 3)" rectangle_style "[]"
      "\<lparr>stream = [], prefix = [], indentation = 0, nesting = 1, heap = module_heap\<rparr>"]
  by (simp add: is_zero_def)

text \<open>
  C7 as it is stated does not hold: \<open>min(0.0, -0.0)\<close> is \<open>0.0\<close> and \<open>min(-0.0, 0.0)\<close> is
  \<open>-0.0\<close>, so the corners \<open>0.0+0j\<close> and \<open>-0.0+0j\<close> give x and y attributes "0" in one
  order and "-0" in the other.
\<close>

theorem rectangle_swap_signed_zero:
  "stream (rectangle (Point (Num 0) (Num 0)) (Point NegZero (Num 0)) rectangle_style []
     \<lparr>stream = [], prefix = [], indentation = 0, nesting = 1, heap = module_heap\<rparr>) =
   ''  <rect x='' @ dq @ ''0'' @ dq @ '' y='' @ dq @ ''0'' @ dq @
   '' width='' @ dq @ ''0'' @ dq @ '' height='' @ dq @ ''0'' @ dq @ ''/>'' @ nl
   \<and> stream (rectangle (Point NegZero (Num 0)) (Point (Num 0) (Num 0)) rectangle_style []
     \<lparr>stream = [], prefix = [], indentation = 0, nesting = 1, heap = module_heap\<rparr>) =
   ''  <rect x='' @ dq @ ''-0'' @ dq @ '' y='' @ dq @ ''-0'' @ dq @
   '' width='' @ dq @ ''0'' @ dq @ '' height='' @ dq @ ''0'' @ dq @ ''/>'' @ nl"
proof -
  have c: "coord (Num 0) = ''0''" "coord NegZero = ''-0''"
    by (simp_all add: coord_eval)
  have m: "fmin (Num 0) NegZero = Num 0" "fmin NegZero (Num 0) = NegZero"
    by (simp_all add: float_eval)
  have d: "fabs (fsub (Num 0) NegZero) = Num 0" "fabs (fsub NegZero (Num 0)) = Num 0"
    "fabs (fsub (Num 0) (Num 0)) = Num 0"
    by (simp_all add: float_eval)
  show ?thesis
    by (simp add: rectangle_def element_stream csub_def c m d rectangle_style_def module_heap_def
        merged_style_def dict_copy_def dict_update_def style_attr_def spaces_def numeral_2_eq_2)
qed

subsection \<open>Smooth curves\<close>





















subsection \<open>Util.py\<close>

text \<open>
  C8. Applied to an empty sequence or set, \<open>arbitrary_item\<close> raises the IndexError
  "No items to select.", which is not the StopIteration signal of the exhausted iterator
  underneath; applied to a non-empty one, it returns the first item of the iteration.
\<close>

theorem arbitrary_item_spec:
  "arbitrary_item ([] :: 'a list) = Inl (IndexError ''No items to select.'')
   \<and> next_iter ([] :: 'a list) = Inl StopIteration
   \<and> arbitrary_item ([] :: 'a list) \<noteq> Inl StopIteration
   \<and> arbitrary_item (x # S) = Inr x
   \<and> next_iter (x # S) = Inr x"
  by (simp add: arbitrary_item_def)

end
